theory Spec2Isabelle
  imports Main
begin

section \<open>Strings and paths\<close>

text \<open>
  Python strings are modelled as \<^typ>\<open>string\<close>, one \<^typ>\<open>char\<close> per code point
  (code points below 256). \<open>isspace\<close> is \<^verbatim>\<open>str.isspace\<close> on that range and
  \<open>strip\<close> is \<^verbatim>\<open>str.strip()\<close> without arguments: leading and trailing whitespace
  removed.
\<close>

definition isspace :: "char \<Rightarrow> bool" where
  "isspace c =
     (let n = (of_char c :: nat)
      in (9 \<le> n \<and> n \<le> 13) \<or> (28 \<le> n \<and> n \<le> 32) \<or> n = 133 \<or> n = 160)"

definition lstrip :: "string \<Rightarrow> string" where
  "lstrip s = dropWhile isspace s"

definition rstrip :: "string \<Rightarrow> string" where
  "rstrip s = rev (dropWhile isspace (rev s))"

definition strip :: "string \<Rightarrow> string" where
  "strip s = rstrip (lstrip s)"

text \<open>
  \<^verbatim>\<open>str(n)\<close> for a Python int: decimal digits, a minus sign for a negative number.
\<close>

definition digit_char :: "nat \<Rightarrow> char" where
  "digit_char d = char_of (48 + d)"

fun str_nat :: "nat \<Rightarrow> string" where
  "str_nat n = (if n < 10 then [digit_char n] else str_nat (n div 10) @ [digit_char (n mod 10)])"

definition str_int :: "int \<Rightarrow> string" where
  "str_int i = (if i < 0 then CHR ''-'' # str_nat (nat (- i)) else str_nat (nat i))"

text \<open>
  A \<^verbatim>\<open>pathlib.Path\<close> is the list of its parts (the root \<^verbatim>\<open>/\<close> is a part of its own).
  \<open>name\<close> is the final component, \<open>suffix\<close> the final component's extension as pathlib
  computes it: from the last dot on, when that dot is neither the first nor the last
  character of the name. \<open>truediv\<close> is the operator \<^verbatim>\<open>folder / file_name\<close>.
\<close>

type_synonym path = "string list"

fun rfind :: "'a list \<Rightarrow> 'a \<Rightarrow> nat option" where
  "rfind [] c = None"
| "rfind (x # xs) c =
     (case rfind xs c of
        Some i \<Rightarrow> Some (Suc i)
      | None \<Rightarrow> if x = c then Some 0 else None)"

definition name :: "path \<Rightarrow> string" where
  "name p = (if p = [] \<or> p = [''/''] then [] else last p)"

definition suffix :: "path \<Rightarrow> string" where
  "suffix p =
     (let nm = name p
      in case rfind nm CHR ''.'' of
           None \<Rightarrow> []
         | Some i \<Rightarrow> if 0 < i \<and> i < length nm - 1 then drop i nm else [])"

fun split_sep :: "char \<Rightarrow> string \<Rightarrow> string list" where
  "split_sep sep [] = [[]]"
| "split_sep sep (c # cs) =
     (if c = sep then [] # split_sep sep cs
      else (case split_sep sep cs of
              [] \<Rightarrow> [[c]]
            | w # ws \<Rightarrow> (c # w) # ws))"

definition components :: "string \<Rightarrow> string list" where
  "components s = filter (\<lambda>w. w \<noteq> [] \<and> w \<noteq> ''.'') (split_sep CHR ''/'' s)"

definition truediv :: "path \<Rightarrow> string \<Rightarrow> path" where
  "truediv folder file_name =
     (case file_name of
        c # _ \<Rightarrow> if c = CHR ''/'' then ''/'' # components file_name
                 else folder @ components file_name
      | [] \<Rightarrow> folder)"

section \<open>Documents\<close>

text \<open>
  A langchain \<^verbatim>\<open>Document\<close>: the text \<^verbatim>\<open>page_content\<close> and the dict \<^verbatim>\<open>metadata\<close>.
  \<open>format_value\<close> is what an f-string prints for a metadata value.
\<close>

datatype meta_value = MStr string | MInt int | MBool bool

record document =
  page_content :: string
  metadata :: "string \<rightharpoonup> meta_value"

definition format_value :: "meta_value \<Rightarrow> string" where
  "format_value v =
     (case v of
        MStr s \<Rightarrow> s
      | MInt i \<Rightarrow> str_int i
      | MBool b \<Rightarrow> if b then ''True'' else ''False'')"

datatype error = ValueError string | FileNotFoundError path | ChromaError

section \<open>SmartPDFLoader\<close>

text \<open>
  A PDF as the loader sees it: for every page the text \<^verbatim>\<open>page.get_text()\<close> returns and
  the images \<^verbatim>\<open>convert_from_path\<close> renders of it. The image type and the OCR engine
  \<^verbatim>\<open>pytesseract.image_to_string\<close> are parameters. The file system maps a path to the PDF
  stored there; a path outside its domain does not exist, and every stored file is a
  PDF that \<^verbatim>\<open>fitz.open\<close> reads. Calls of the two OCR collaborators are recorded in
  \<open>ocr_log\<close>.
\<close>

record 'img pdf_page =
  get_text :: string
  page_images :: "'img list"

type_synonym 'img pdf = "'img pdf_page list"

datatype 'img ocr_event = ConvertFromPath nat nat | ImageToString 'img string

type_synonym stored = "nat \<times> document"

datatype client_state = Unopened | Open | Moved

record 'img world =
  files :: "path \<rightharpoonup> 'img pdf"
  data_folder_exists :: bool
  chroma_db :: "stored list option"
  client :: client_state
  ocr_log :: "'img ocr_event list"
  uuid_count :: nat

definition convert_from_path :: "'img pdf \<Rightarrow> nat \<Rightarrow> nat \<Rightarrow> 'img list" where
  "convert_from_path pdf first_page last_page =
     concat (map page_images (take (Suc last_page - first_page) (drop (first_page - 1) pdf)))"

definition ocr_page ::
  "('img \<Rightarrow> string \<Rightarrow> string) \<Rightarrow> string \<Rightarrow> path \<Rightarrow> 'img pdf \<Rightarrow> nat \<Rightarrow>
   'img ocr_event list \<Rightarrow> document option \<times> 'img ocr_event list" where
  "ocr_page image_to_string lang pdf_path pdf page_num log =
     (let images = convert_from_path pdf page_num page_num;
          log1 = log @ [ConvertFromPath page_num page_num]
      in case images of
           [] \<Rightarrow> (None, log1)
         | img # _ \<Rightarrow>
             (let text = strip (image_to_string img lang);
                  log2 = log1 @ [ImageToString img lang]
              in if text = [] then (None, log2)
                 else (Some \<lparr>page_content = text,
                             metadata = [''source'' \<mapsto> MStr (name pdf_path),
                                         ''page'' \<mapsto> MInt (int page_num),
                                         ''ocr'' \<mapsto> MBool True]\<rparr>, log2)))"

definition load_page ::
  "('img \<Rightarrow> string \<Rightarrow> string) \<Rightarrow> string \<Rightarrow> path \<Rightarrow> 'img pdf \<Rightarrow>
   document list \<times> 'img ocr_event list \<Rightarrow> nat \<Rightarrow> document list \<times> 'img ocr_event list" where
  "load_page image_to_string lang pdf_path pdf acc page_index =
     (let result_docs = fst acc; log = snd acc;
          page_num = page_index + 1;
          page = pdf ! page_index;
          text = strip (get_text page)
      in if text \<noteq> []
         then (result_docs @ [\<lparr>page_content = text,
                                metadata = [''source'' \<mapsto> MStr (name pdf_path),
                                            ''page'' \<mapsto> MInt (int page_num),
                                            ''ocr'' \<mapsto> MBool False]\<rparr>], log)
         else (case ocr_page image_to_string lang pdf_path pdf page_num log of
                 (Some ocr_doc, log') \<Rightarrow> (result_docs @ [ocr_doc], log')
               | (None, log') \<Rightarrow> (result_docs, log')))"

definition load ::
  "('img \<Rightarrow> string \<Rightarrow> string) \<Rightarrow> string \<Rightarrow> path \<Rightarrow> 'img world \<Rightarrow>
   (error + document list) \<times> 'img world" where
  "load image_to_string lang file_path w =
     (case files w file_path of
        None \<Rightarrow> (Inl (FileNotFoundError file_path), w)
      | Some pdf \<Rightarrow>
          (let num_pages = length pdf;
               r = foldl (load_page image_to_string lang file_path pdf) ([], ocr_log w)
                     [0..<num_pages]
           in (Inr (fst r), w\<lparr>ocr_log := snd r\<rparr>)))"

section \<open>Vector store\<close>

text \<open>
  The Chroma collection kept under \<^verbatim>\<open>persist_directory\<close> is the field \<open>chroma_db\<close>
  of the world: \<open>None\<close> while there is none, otherwise the stored documents with their
  ids, in insertion order, as the running process finds or serves them. An id is the
  number of the \<^verbatim>\<open>uuid4()\<close> draw that produced it, so two draws never give the same
  id.

  The library keeps one client per directory and process, and \<open>client\<close> is its state.
  While the process has not opened the store (\<open>Unopened\<close>), removing the directory
  removes the collection, and opening the store creates an empty collection when none is
  there. Once a client is open (\<open>Open\<close>), constructing the store again returns that
  same client. Removing the directory under an open client leaves it \<open>Moved\<close>: the path
  is gone, the client still serves the entries it had through its open database file,
  and \<^verbatim>\<open>add_documents\<close> on it raises (\<open>ChromaError\<close>: the database has become
  read-only). On a client that is not moved \<^verbatim>\<open>add_documents\<close> appends.
\<close>

definition persist_directory_exists :: "'img world \<Rightarrow> bool" where
  "persist_directory_exists w = (chroma_db w \<noteq> None \<and> client w \<noteq> Moved)"

definition Chroma :: "'img world \<Rightarrow> 'img world" where
  "Chroma w =
     (case client w of
        Unopened \<Rightarrow>
          (case chroma_db w of
             None \<Rightarrow> w\<lparr>chroma_db := Some [], client := Open\<rparr>
           | Some _ \<Rightarrow> w\<lparr>client := Open\<rparr>)
      | Open \<Rightarrow> w
      | Moved \<Rightarrow> w)"

definition rmtree :: "'img world \<Rightarrow> 'img world" where
  "rmtree w =
     (case client w of
        Unopened \<Rightarrow> w\<lparr>chroma_db := None\<rparr>
      | Open \<Rightarrow> w\<lparr>client := Moved\<rparr>
      | Moved \<Rightarrow> w)"

definition add_documents ::
  "document list \<Rightarrow> nat list \<Rightarrow> 'img world \<Rightarrow> (error + unit) \<times> 'img world" where
  "add_documents documents ids w =
     (if client w = Moved then (Inl ChromaError, w)
      else (Inr (),
            w\<lparr>chroma_db :=
                Some ((case chroma_db w of None \<Rightarrow> [] | Some s \<Rightarrow> s) @ zip ids documents)\<rparr>))"

definition uuid4s :: "nat \<Rightarrow> 'img world \<Rightarrow> nat list \<times> 'img world" where
  "uuid4s n w = (map (\<lambda>i. uuid_count w + i) [0..<n], w\<lparr>uuid_count := uuid_count w + n\<rparr>)"

section \<open>Ingestor\<close>

text \<open>
  The text splitter \<^verbatim>\<open>RecursiveCharacterTextSplitter(chunk_size, chunk_overlap)
  .split_documents\<close> is a parameter \<open>split_documents\<close> of \<open>ingest_file\<close>; the directory
  \<^verbatim>\<open>Path(__file__).parent.parent\<close> is the parameter \<open>base\<close> of the constructor.
\<close>

record ingestor =
  chunk_size :: int
  chunk_overlap :: int
  data_folder :: path
  persist_directory :: path
  file_path :: path

definition instantiate_vector_store :: "'img world \<Rightarrow> 'img world" where
  "instantiate_vector_store w =
     Chroma (if persist_directory_exists w then rmtree w else w)"

definition Ingestor_init ::
  "path \<Rightarrow> string \<Rightarrow> int \<Rightarrow> int \<Rightarrow> 'img world \<Rightarrow> ingestor \<times> 'img world" where
  "Ingestor_init base file_name csize coverlap w =
     (let folder = base @ [''data''];
          self = \<lparr>chunk_size = csize, chunk_overlap = coverlap,
                  data_folder = folder,
                  persist_directory = base @ [''db'', ''chroma_langchain_db''],
                  file_path = truediv folder file_name\<rparr>;
          w1 = (if \<not> data_folder_exists w then w\<lparr>data_folder_exists := True\<rparr> else w)
      in (self, instantiate_vector_store w1))"

definition setdefault ::
  "(string \<rightharpoonup> meta_value) \<Rightarrow> string \<Rightarrow> meta_value \<Rightarrow> (string \<rightharpoonup> meta_value)" where
  "setdefault m k v = (case m k of None \<Rightarrow> m(k \<mapsto> v) | Some _ \<Rightarrow> m)"

definition annotate :: "string \<Rightarrow> nat \<Rightarrow> document \<Rightarrow> document" where
  "annotate source_name idx doc =
     (let page = metadata doc ''page'';
          m1 = setdefault (metadata doc) ''source'' (MStr source_name);
          m2 = setdefault m1 ''ocr'' (MBool False);
          m3 = m2(''chunk_id'' \<mapsto> MInt (int idx))
      in \<lparr>page_content =
            (case page of
               None \<Rightarrow> page_content doc
             | Some p \<Rightarrow> ''[PAGINA '' @ format_value p @ '']'' @ [CHR 0x0A] @ page_content doc),
          metadata = m3\<rparr>)"

fun annotate_from :: "string \<Rightarrow> nat \<Rightarrow> document list \<Rightarrow> document list" where
  "annotate_from source_name idx [] = []"
| "annotate_from source_name idx (doc # documents) =
     annotate source_name idx doc # annotate_from source_name (Suc idx) documents"

definition ingest_file ::
  "('img \<Rightarrow> string \<Rightarrow> string) \<Rightarrow> (int \<Rightarrow> int \<Rightarrow> document list \<Rightarrow> document list) \<Rightarrow>
   ingestor \<Rightarrow> 'img world \<Rightarrow> (error + unit) \<times> 'img world" where
  "ingest_file image_to_string split_documents self w =
     (if suffix (file_path self) \<noteq> ''.pdf''
      then (Inl (ValueError ''The file must be a pdf.''), w)
      else (case load image_to_string ''ita'' (file_path self) w of
              (Inl e, w1) \<Rightarrow> (Inl e, w1)
            | (Inr loaded_documents, w1) \<Rightarrow>
                (let documents =
                       annotate_from (name (file_path self)) 0
                         (split_documents (chunk_size self) (chunk_overlap self)
                            loaded_documents);
                     (uuids, w2) = uuid4s (length documents) w1
                 in add_documents documents uuids w2)))"

text \<open>
  A splitter to run the pipeline with: every page is cut into consecutive windows of
  \<open>chunk_size\<close> characters, each window keeping the page's metadata. No chunk it
  returns is longer than \<open>chunk_size\<close>, and a page that fits into one chunk is returned
  as that one chunk.
\<close>

definition windows :: "nat \<Rightarrow> string \<Rightarrow> string list" where
  "windows n s = map (\<lambda>i. take n (drop (i * n) s)) [0..<(length s + n - 1) div n]"

definition window_splitter :: "int \<Rightarrow> int \<Rightarrow> document list \<Rightarrow> document list" where
  "window_splitter csize coverlap docs =
     concat (map (\<lambda>d. map (\<lambda>t. d\<lparr>page_content := t\<rparr>) (windows (nat csize) (page_content d)))
               docs)"

section \<open>PdfChat\<close>

text \<open>
  The retrieval chain of \<^verbatim>\<open>PdfChat\<close> is built from three collaborators, all parameters:
  \<open>retrieve\<close> (the vector store's similarity search over the index contents, for the
  \<open>k\<close> nearest chunks), \<open>render\<close> (the prompt template filled with the question and the
  retrieved chunks) and \<open>chat_model\<close>, which has a hidden state of its own, so that its
  answers may change from call to call. \<open>received\<close> records every prompt handed to it.
\<close>

record pdf_chat =
  prompt_message :: "(string \<times> string) list"
  retriever_k :: nat

record ('m, 'p) chat_model_state =
  hidden :: 'm
  received :: "'p list"

definition define_prompt ::
  "(string \<times> string) list \<Rightarrow> (string \<times> string) list option \<Rightarrow> (string \<times> string) list" where
  "define_prompt default_message given =
     (case given of
        None \<Rightarrow> default_message
      | Some [] \<Rightarrow> default_message
      | Some (m # ms) \<Rightarrow> m # ms)"

definition PdfChat_init ::
  "(string \<times> string) list \<Rightarrow> (string \<times> string) list option \<Rightarrow> pdf_chat" where
  "PdfChat_init default_message given =
     \<lparr>prompt_message = define_prompt default_message given, retriever_k = 15\<rparr>"

definition ask ::
  "(stored list option \<Rightarrow> nat \<Rightarrow> string \<Rightarrow> document list) \<Rightarrow>
   ((string \<times> string) list \<Rightarrow> string \<Rightarrow> document list \<Rightarrow> 'p) \<Rightarrow>
   ('m \<Rightarrow> 'p \<Rightarrow> string \<times> 'm) \<Rightarrow>
   pdf_chat \<Rightarrow> string \<Rightarrow> 'img world \<times> ('m, 'p) chat_model_state \<Rightarrow>
   string \<times> 'img world \<times> ('m, 'p) chat_model_state" where
  "ask retrieve render chat_model self query st =
     (let w = fst st; llm = snd st;
          context = retrieve (chroma_db w) (retriever_k self) query;
          prompt = render (prompt_message self) query context;
          (answer, h) = chat_model (hidden llm) prompt
      in (answer, w, \<lparr>hidden = h, received = received llm @ [prompt]\<rparr>))"

fun ask_all ::
  "(stored list option \<Rightarrow> nat \<Rightarrow> string \<Rightarrow> document list) \<Rightarrow>
   ((string \<times> string) list \<Rightarrow> string \<Rightarrow> document list \<Rightarrow> 'p) \<Rightarrow>
   ('m \<Rightarrow> 'p \<Rightarrow> string \<times> 'm) \<Rightarrow>
   pdf_chat \<Rightarrow> string list \<Rightarrow> 'img world \<times> ('m, 'p) chat_model_state \<Rightarrow>
   'img world \<times> ('m, 'p) chat_model_state" where
  "ask_all retrieve render chat_model self [] st = st"
| "ask_all retrieve render chat_model self (q # qs) st =
     ask_all retrieve render chat_model self qs
       (snd (ask retrieve render chat_model self q st))"

section \<open>What one page contributes\<close>

text \<open>
  The documents and the collaborator calls that one iteration of the loop of \<open>load\<close>
  adds, and the ways the properties below read a result: the documents of one page, the
  collaborator calls a run logged, the entries of the index and those a run added to it.
\<close>

definition page_docs ::
  "('img \<Rightarrow> string \<Rightarrow> string) \<Rightarrow> string \<Rightarrow> path \<Rightarrow> 'img pdf \<Rightarrow> nat \<Rightarrow> document list" where
  "page_docs image_to_string lang pdf_path pdf page_index =
     fst (load_page image_to_string lang pdf_path pdf ([], []) page_index)"

definition page_events ::
  "('img \<Rightarrow> string \<Rightarrow> string) \<Rightarrow> string \<Rightarrow> path \<Rightarrow> 'img pdf \<Rightarrow> nat \<Rightarrow> 'img ocr_event list" where
  "page_events image_to_string lang pdf_path pdf page_index =
     snd (load_page image_to_string lang pdf_path pdf ([], []) page_index)"

definition docs_of_page :: "nat \<Rightarrow> document list \<Rightarrow> document list" where
  "docs_of_page n docs = filter (\<lambda>d. metadata d ''page'' = Some (MInt (int n))) docs"

definition new_events :: "'img world \<Rightarrow> 'img world \<Rightarrow> 'img ocr_event list" where
  "new_events w w' = drop (length (ocr_log w)) (ocr_log w')"

definition entries :: "'img world \<Rightarrow> stored list" where
  "entries w = (case chroma_db w of None \<Rightarrow> [] | Some s \<Rightarrow> s)"

definition new_entries :: "'img world \<Rightarrow> 'img world \<Rightarrow> stored list" where
  "new_entries w w' = drop (length (entries w)) (entries w')"

section \<open>A sample run\<close>

text \<open>
  Concrete data to run the definitions on: an OCR engine that reads an image given as
  the text printed on it, a three-page PDF (one page with native text, one scan with
  text, one blank scan) and a world that stores it and holds an index left over from an
  earlier run of the program, in a process that has not opened the store yet.
\<close>

definition read_image :: "string \<Rightarrow> string \<Rightarrow> string" where
  "read_image img lang = img"

definition sample_pdf :: "string pdf" where
  "sample_pdf =
     [\<lparr>get_text = '' hello '', page_images = []\<rparr>,
      \<lparr>get_text = ''  '', page_images = [''scan '']\<rparr>,
      \<lparr>get_text = [], page_images = ['' '']\<rparr>]"

definition sample_path :: path where
  "sample_path = [''/'', ''app'', ''data'', ''a.pdf'']"

definition sample_world :: "string world" where
  "sample_world =
     \<lparr>files = [sample_path \<mapsto> sample_pdf], data_folder_exists = True,
      chroma_db = Some [(7, \<lparr>page_content = ''old'', metadata = Map.empty\<rparr>)],
      client = Unopened, ocr_log = [], uuid_count = 0\<rparr>"

definition sample_ingestor :: ingestor where
  "sample_ingestor = fst (Ingestor_init [''/'', ''app''] ''a.pdf'' 800 150 sample_world)"

definition sample_ready :: "string world" where
  "sample_ready = snd (Ingestor_init [''/'', ''app''] ''a.pdf'' 800 150 sample_world)"

definition sample_first :: "string world" where
  "sample_first = snd (ingest_file read_image window_splitter sample_ingestor sample_ready)"

definition sample_second :: "string world" where
  "sample_second = snd (ingest_file read_image window_splitter sample_ingestor sample_first)"

definition small_ingestor :: ingestor where
  "small_ingestor = fst (Ingestor_init [''/'', ''app''] ''a.pdf'' 5 0 sample_world)"

definition small_ready :: "string world" where
  "small_ready = snd (Ingestor_init [''/'', ''app''] ''a.pdf'' 5 0 sample_world)"

section \<open>Properties\<close>

subsection \<open>Stripping\<close>

lemma hd_strip: "strip s \<noteq> [] \<Longrightarrow> \<not> isspace (hd (strip s))"
proof -
  assume ne: "strip s \<noteq> []"
  let ?t = "dropWhile isspace s"
  let ?u = "dropWhile isspace (rev ?t)"
  have s: "strip s = rev ?u" by (simp add: strip_def lstrip_def rstrip_def)
  with ne have u: "?u \<noteq> []" by simp
  have t: "?t \<noteq> []"
    using u by (metis dropWhile.simps(1) rev.simps(1))
  have "hd (rev ?u) = last ?u" using u by (simp add: hd_rev)
  also have "last ?u = last (rev ?t)"
    using u by (metis takeWhile_dropWhile_id last_appendR)
  also have "\<dots> = hd ?t" using t by (simp add: last_rev)
  finally have "hd (strip s) = hd ?t" using s by simp
  moreover have "\<not> isspace (hd ?t)" using t by (rule hd_dropWhile)
  ultimately show ?thesis by simp
qed

lemma last_strip: "strip s \<noteq> [] \<Longrightarrow> \<not> isspace (last (strip s))"
proof -
  assume ne: "strip s \<noteq> []"
  let ?u = "dropWhile isspace (rev (dropWhile isspace s))"
  have s: "strip s = rev ?u" by (simp add: strip_def lstrip_def rstrip_def)
  with ne have u: "?u \<noteq> []" by simp
  have "last (rev ?u) = hd ?u" using u by (simp add: last_rev)
  moreover have "\<not> isspace (hd ?u)" using u by (rule hd_dropWhile)
  ultimately show ?thesis using s by simp
qed

lemma convert_single:
  "i < length pdf \<Longrightarrow> convert_from_path pdf (Suc i) (Suc i) = page_images (pdf ! i)"
  by (simp add: convert_from_path_def Cons_nth_drop_Suc [symmetric])

lemma load_page_acc:
  "load_page ocr lang p pdf acc i =
     (fst acc @ page_docs ocr lang p pdf i, snd acc @ page_events ocr lang p pdf i)"
  by (auto simp: load_page_def ocr_page_def page_docs_def page_events_def Let_def
           split: list.splits prod.splits option.splits)

lemma foldl_load_page:
  "foldl (load_page ocr lang p pdf) acc is =
     (fst acc @ concat (map (page_docs ocr lang p pdf) is),
      snd acc @ concat (map (page_events ocr lang p pdf) is))"
proof (induction "is" arbitrary: acc)
  case Nil
  then show ?case by simp
next
  case (Cons i "is")
  have "foldl (load_page ocr lang p pdf) acc (i # is) =
          foldl (load_page ocr lang p pdf) (load_page ocr lang p pdf acc i) is"
    by simp
  also have "\<dots> =
      (fst (load_page ocr lang p pdf acc i) @ concat (map (page_docs ocr lang p pdf) is),
       snd (load_page ocr lang p pdf acc i) @ concat (map (page_events ocr lang p pdf) is))"
    by (rule Cons.IH)
  also have "\<dots> =
      (fst acc @ concat (map (page_docs ocr lang p pdf) (i # is)),
       snd acc @ concat (map (page_events ocr lang p pdf) (i # is)))"
    by (simp add: load_page_acc [of ocr lang p pdf acc i])
  finally show ?case .
qed

lemma load_eq:
  "files w p = Some pdf \<Longrightarrow>
   load ocr lang p w =
     (Inr (concat (map (page_docs ocr lang p pdf) [0..<length pdf])),
      w\<lparr>ocr_log := ocr_log w @ concat (map (page_events ocr lang p pdf) [0..<length pdf])\<rparr>)"
  by (simp add: load_def Let_def foldl_load_page)


lemma page_docs_cases:
  "i < length pdf \<Longrightarrow>
   page_docs ocr lang p pdf i =
     (if strip (get_text (pdf ! i)) \<noteq> []
      then [\<lparr>page_content = strip (get_text (pdf ! i)),
              metadata = [''source'' \<mapsto> MStr (name p), ''page'' \<mapsto> MInt (int (Suc i)),
                          ''ocr'' \<mapsto> MBool False]\<rparr>]
      else (case page_images (pdf ! i) of
              [] \<Rightarrow> []
            | img # _ \<Rightarrow>
                if strip (ocr img lang) = [] then []
                else [\<lparr>page_content = strip (ocr img lang),
                       metadata = [''source'' \<mapsto> MStr (name p),
                                   ''page'' \<mapsto> MInt (int (Suc i)),
                                   ''ocr'' \<mapsto> MBool True]\<rparr>]))"
  by (simp add: page_docs_def load_page_def ocr_page_def convert_single Let_def
           split: list.splits)

lemma page_events_cases:
  "i < length pdf \<Longrightarrow>
   page_events ocr lang p pdf i =
     (if strip (get_text (pdf ! i)) \<noteq> [] then []
      else ConvertFromPath (Suc i) (Suc i) #
           (case page_images (pdf ! i) of [] \<Rightarrow> [] | img # _ \<Rightarrow> [ImageToString img lang]))"
  by (simp add: page_events_def load_page_def ocr_page_def convert_single Let_def
           split: list.splits)

lemma page_docs_page:
  "i < length pdf \<Longrightarrow> d \<in> set (page_docs ocr lang p pdf i) \<Longrightarrow>
   metadata d ''page'' = Some (MInt (int (Suc i)))"
  by (auto simp: page_docs_cases split: if_splits list.splits)

lemma page_docs_stripped:
  "i < length pdf \<Longrightarrow> d \<in> set (page_docs ocr lang p pdf i) \<Longrightarrow>
   \<exists>s. page_content d = strip s \<and> strip s \<noteq> []"
  by (auto simp: page_docs_cases split: if_splits list.splits)

lemma docs_of_page_concat:
  assumes "\<And>j d. j < m \<Longrightarrow> d \<in> set (f j) \<Longrightarrow> metadata d ''page'' = Some (MInt (int (Suc j)))"
  shows "docs_of_page (Suc i) (concat (map f [0..<m])) = (if i < m then f i else [])"
  using assms
proof (induction m)
  case 0
  then show ?case by (simp add: docs_of_page_def)
next
  case (Suc m)
  have prev: "docs_of_page (Suc i) (concat (map f [0..<m])) = (if i < m then f i else [])"
    using Suc.prems by (intro Suc.IH) simp
  have this_page: "docs_of_page (Suc i) (f m) = (if i = m then f m else [])"
  proof (cases "i = m")
    case True
    then show ?thesis using Suc.prems [of m] by (simp add: docs_of_page_def)
  next
    case False
    have "filter (\<lambda>d. metadata d ''page'' = Some (MInt (int (Suc i)))) (f m) = []"
      unfolding filter_empty_conv using Suc.prems [of m] False by auto
    with False show ?thesis by (simp add: docs_of_page_def)
  qed
  have "docs_of_page (Suc i) (concat (map f [0..<Suc m])) =
          docs_of_page (Suc i) (concat (map f [0..<m])) @ docs_of_page (Suc i) (f m)"
    by (simp add: docs_of_page_def)
  with prev this_page show ?case by auto
qed

lemma page_events_upt:
  "concat (map (page_events ocr lang p pdf) [0..<length pdf]) =
     concat (map (\<lambda>n. if strip (get_text (pdf ! (n - 1))) \<noteq> [] then []
                        else ConvertFromPath n n #
                             (case page_images (pdf ! (n - 1)) of
                                [] \<Rightarrow> []
                              | img # _ \<Rightarrow> [ImageToString img lang]))
               [1..<Suc (length pdf)])"
proof -
  have "map (page_events ocr lang p pdf) [0..<length pdf] =
        map (\<lambda>j. if strip (get_text (pdf ! j)) \<noteq> [] then []
                   else ConvertFromPath (Suc j) (Suc j) #
                        (case page_images (pdf ! j) of
                           [] \<Rightarrow> []
                         | img # _ \<Rightarrow> [ImageToString img lang]))
          [0..<length pdf]"
    by (rule map_cong) (simp_all add: page_events_cases)
  also have "\<dots> =
        map (\<lambda>n. if strip (get_text (pdf ! (n - 1))) \<noteq> [] then []
                   else ConvertFromPath n n #
                        (case page_images (pdf ! (n - 1)) of
                           [] \<Rightarrow> []
                         | img # _ \<Rightarrow> [ImageToString img lang]))
          (map Suc [0..<length pdf])"
    by (simp add: comp_def)
  finally show ?thesis
    by (simp add: map_Suc_upt del: upt_Suc)
qed

lemma sample_pdf_stored: "files sample_world sample_path = Some sample_pdf"
  by (simp add: sample_world_def)

subsection \<open>The page loop of the loader\<close>

text \<open>
  Claim C4. For a PDF stored at the path, \<open>load\<close> succeeds, and its result is made of
  the documents of page 1, page 2, ... in this order. The OCR collaborators are called
  for the pages whose native text is empty after stripping and for no other page: for
  each such page, in page order, the rasteriser once for that single page and then the
  OCR engine once on the page's image. Page \<open>i + 1\<close> with non-empty stripped native text
  contributes exactly one document, with that text and \<open>ocr = False\<close>. A page without
  native text contributes one document with \<open>ocr = True\<close> and the stripped OCR text when
  that text is non-empty, and no document when it is empty (or when the rasteriser
  returned no image).
\<close>

theorem load_page_by_page:
  assumes "files w p = Some pdf" and "i < length pdf"
  shows "\<exists>docs w'.
           load ocr lang p w = (Inr docs, w') \<and>
           docs = concat (map (\<lambda>n. docs_of_page n docs) [1..<Suc (length pdf)]) \<and>
           new_events w w' =
             concat (map (\<lambda>n. if strip (get_text (pdf ! (n - 1))) \<noteq> [] then []
                                else ConvertFromPath n n #
                                     (case page_images (pdf ! (n - 1)) of
                                        [] \<Rightarrow> []
                                      | img # _ \<Rightarrow> [ImageToString img lang]))
                       [1..<Suc (length pdf)]) \<and>
           docs_of_page (Suc i) docs =
             (if strip (get_text (pdf ! i)) \<noteq> []
              then [\<lparr>page_content = strip (get_text (pdf ! i)),
                      metadata = [''source'' \<mapsto> MStr (name p),
                                  ''page'' \<mapsto> MInt (int (Suc i)),
                                  ''ocr'' \<mapsto> MBool False]\<rparr>]
              else (case page_images (pdf ! i) of
                      [] \<Rightarrow> []
                    | img # _ \<Rightarrow>
                        if strip (ocr img lang) = [] then []
                        else [\<lparr>page_content = strip (ocr img lang),
                               metadata = [''source'' \<mapsto> MStr (name p),
                                           ''page'' \<mapsto> MInt (int (Suc i)),
                                           ''ocr'' \<mapsto> MBool True]\<rparr>]))"
proof -
  let ?pd = "page_docs ocr lang p pdf"
  let ?pe = "page_events ocr lang p pdf"
  let ?docs = "concat (map ?pd [0..<length pdf])"
  let ?w' = "w\<lparr>ocr_log := ocr_log w @ concat (map ?pe [0..<length pdf])\<rparr>"
  have run: "load ocr lang p w = (Inr ?docs, ?w')"
    using assms(1) by (rule load_eq)
  have pages: "\<And>j d. j < length pdf \<Longrightarrow> d \<in> set (?pd j) \<Longrightarrow>
                 metadata d ''page'' = Some (MInt (int (Suc j)))"
    by (rule page_docs_page)
  have one: "\<And>j. docs_of_page (Suc j) ?docs = (if j < length pdf then ?pd j else [])"
    using pages by (rule docs_of_page_concat)
  have "map (\<lambda>n. docs_of_page n ?docs) [1..<Suc (length pdf)] =
        map (\<lambda>j. docs_of_page (Suc j) ?docs) [0..<length pdf]"
    by (simp add: map_Suc_upt [symmetric] del: upt_Suc)
  also have "\<dots> = map ?pd [0..<length pdf]"
    by (rule map_cong) (simp_all add: one)
  finally have order: "?docs = concat (map (\<lambda>n. docs_of_page n ?docs) [1..<Suc (length pdf)])"
    by simp
  have "new_events w ?w' = concat (map ?pe [0..<length pdf])"
    by (simp add: new_events_def)
  then have calls: "new_events w ?w' =
      concat (map (\<lambda>n. if strip (get_text (pdf ! (n - 1))) \<noteq> [] then []
                         else ConvertFromPath n n #
                              (case page_images (pdf ! (n - 1)) of
                                 [] \<Rightarrow> []
                               | img # _ \<Rightarrow> [ImageToString img lang]))
                [1..<Suc (length pdf)])"
    by (simp only: page_events_upt)
  have this_page: "docs_of_page (Suc i) ?docs = ?pd i"
    using assms(2) by (simp add: one)
  show ?thesis
    using run order calls this_page page_docs_cases [OF assms(2), of ocr lang p]
    by (intro exI [of _ ?docs] exI [of _ ?w']) (simp only: simp_thms)
qed

theorem load_page_by_page_witness:
  "files sample_world sample_path = Some sample_pdf \<and> Suc 0 < length sample_pdf \<and>
   (\<exists>docs w'.
      load read_image ''ita'' sample_path sample_world = (Inr docs, w') \<and>
      map page_content (docs_of_page (Suc (Suc 0)) docs) = [''scan''] \<and>
      new_events sample_world w' =
        [ConvertFromPath 2 2, ImageToString ''scan '' ''ita'',
         ConvertFromPath 3 3, ImageToString '' '' ''ita''])"
proof -
  have len: "Suc 0 < length sample_pdf"
    by (simp add: sample_pdf_def)
  have e1: "strip (get_text (sample_pdf ! Suc 0)) = []"
    by code_simp
  have e2: "page_images (sample_pdf ! Suc 0) = [''scan '']"
    by code_simp
  have e3: "strip (read_image ''scan '' ''ita'') = ''scan''"
    by code_simp
  have e4: "concat (map (\<lambda>n. if strip (get_text (sample_pdf ! (n - 1))) \<noteq> [] then []
                               else ConvertFromPath n n #
                                    (case page_images (sample_pdf ! (n - 1)) of
                                       [] \<Rightarrow> []
                                     | img # _ \<Rightarrow> [ImageToString img ''ita'']))
                      [1..<Suc (length sample_pdf)]) =
            [ConvertFromPath 2 2, ImageToString ''scan '' ''ita'',
             ConvertFromPath 3 3, ImageToString '' '' ''ita'']"
    by code_simp
  from load_page_by_page [OF sample_pdf_stored len, of read_image "''ita''"]
  obtain docs w' where
    run: "load read_image ''ita'' sample_path sample_world = (Inr docs, w')" and
    calls: "new_events sample_world w' =
              concat (map (\<lambda>n. if strip (get_text (sample_pdf ! (n - 1))) \<noteq> [] then []
                                 else ConvertFromPath n n #
                                      (case page_images (sample_pdf ! (n - 1)) of
                                         [] \<Rightarrow> []
                                       | img # _ \<Rightarrow> [ImageToString img ''ita'']))
                        [1..<Suc (length sample_pdf)])" and
    page2: "docs_of_page (Suc (Suc 0)) docs =
              (if strip (get_text (sample_pdf ! Suc 0)) \<noteq> []
               then [\<lparr>page_content = strip (get_text (sample_pdf ! Suc 0)),
                       metadata = [''source'' \<mapsto> MStr (name sample_path),
                                   ''page'' \<mapsto> MInt (int (Suc (Suc 0))),
                                   ''ocr'' \<mapsto> MBool False]\<rparr>]
               else (case page_images (sample_pdf ! Suc 0) of
                       [] \<Rightarrow> []
                     | img # _ \<Rightarrow>
                         if strip (read_image img ''ita'') = [] then []
                         else [\<lparr>page_content = strip (read_image img ''ita''),
                                metadata = [''source'' \<mapsto> MStr (name sample_path),
                                            ''page'' \<mapsto> MInt (int (Suc (Suc 0))),
                                            ''ocr'' \<mapsto> MBool True]\<rparr>]))"
    by blast
  have texts: "map page_content (docs_of_page (Suc (Suc 0)) docs) = [''scan'']"
    using page2 by (simp add: e1 e2 e3)
  have "new_events sample_world w' =
          [ConvertFromPath 2 2, ImageToString ''scan '' ''ita'',
           ConvertFromPath 3 3, ImageToString '' '' ''ita'']"
    by (simp only: calls e4)
  with run texts sample_pdf_stored len show ?thesis
    by (intro conjI exI [of _ docs] exI [of _ w'])
qed



text \<open>
  Claim C9. Every document that \<open>load\<close> returns has a non-empty text whose first and
  last characters are not whitespace.
\<close>

theorem load_texts_stripped:
  assumes "fst (load ocr lang p w) = Inr docs"
  shows "\<forall>d \<in> set docs.
           page_content d \<noteq> [] \<and> \<not> isspace (hd (page_content d)) \<and>
           \<not> isspace (last (page_content d))"
proof
  fix d
  assume d: "d \<in> set docs"
  from assms obtain pdf where pdf: "files w p = Some pdf"
    by (cases "files w p") (simp_all add: load_def)
  with assms have "docs = concat (map (page_docs ocr lang p pdf) [0..<length pdf])"
    by (simp add: load_eq)
  with d obtain j where "j < length pdf" and "d \<in> set (page_docs ocr lang p pdf j)"
    by auto
  then obtain s where "page_content d = strip s" and "strip s \<noteq> []"
    using page_docs_stripped by blast
  then show "page_content d \<noteq> [] \<and> \<not> isspace (hd (page_content d)) \<and>
             \<not> isspace (last (page_content d))"
    by (simp add: hd_strip last_strip)
qed

theorem load_texts_stripped_witness:
  "\<exists>docs.
     fst (load read_image ''ita'' sample_path sample_world) = Inr docs \<and>
     map page_content docs = [''hello'', ''scan''] \<and>
     list_all (\<lambda>d. page_content d \<noteq> [] \<and> \<not> isspace (hd (page_content d)) \<and>
                    \<not> isspace (last (page_content d))) docs"
proof -
  let ?docs = "concat (map (page_docs read_image ''ita'' sample_path sample_pdf)
                         [0..<length sample_pdf])"
  have run: "fst (load read_image ''ita'' sample_path sample_world) = Inr ?docs"
    by (simp add: load_eq [OF sample_pdf_stored])
  have texts: "map page_content ?docs = [''hello'', ''scan'']"
    by code_simp
  from load_texts_stripped [OF run]
  have stripped: "list_all (\<lambda>d. page_content d \<noteq> [] \<and> \<not> isspace (hd (page_content d)) \<and>
                       \<not> isspace (last (page_content d))) ?docs"
    by (simp only: list_all_iff)
  show ?thesis
    by (intro exI [of _ ?docs] conjI run texts stripped)
qed

subsection \<open>The ingestion pipeline\<close>

lemma length_annotate_from: "length (annotate_from nm k ds) = length ds"
  by (induction ds arbitrary: k) simp_all

lemma ingest_file_cases:
  "ingest_file ocr split self w =
     (if suffix (file_path self) \<noteq> ''.pdf''
      then (Inl (ValueError ''The file must be a pdf.''), w)
      else (case files w (file_path self) of
              None \<Rightarrow> (Inl (FileNotFoundError (file_path self)), w)
            | Some pdf \<Rightarrow>
                (let w1 = snd (load ocr ''ita'' (file_path self) w);
                     documents =
                       annotate_from (name (file_path self)) 0
                         (split (chunk_size self) (chunk_overlap self)
                            (concat (map (page_docs ocr ''ita'' (file_path self) pdf)
                                       [0..<length pdf])))
                 in if client w = Moved
                    then (Inl ChromaError,
                          w1\<lparr>uuid_count := uuid_count w + length documents\<rparr>)
                    else (Inr (),
                          w1\<lparr>uuid_count := uuid_count w + length documents,
                             chroma_db :=
                               Some (entries w @
                                     zip (map (\<lambda>i. uuid_count w + i) [0..<length documents])
                                       documents)\<rparr>))))"
proof (cases "files w (file_path self)")
  case None
  then show ?thesis
    by (simp add: ingest_file_def load_def)
next
  case (Some pdf)
  show ?thesis
    by (simp add: ingest_file_def load_eq [OF Some] Some Let_def uuid4s_def add_documents_def
          entries_def)
qed

lemma ingest_file_new_entries:
  assumes "fst (ingest_file ocr split self w) = Inr ()"
  shows "\<exists>loaded.
           fst (load ocr ''ita'' (file_path self) w) = Inr loaded \<and>
           map snd (new_entries w (snd (ingest_file ocr split self w))) =
             annotate_from (name (file_path self)) 0
               (split (chunk_size self) (chunk_overlap self) loaded)"
proof -
  from assms have pdf_suffix: "suffix (file_path self) = ''.pdf''"
    by (auto simp: ingest_file_cases split: if_splits)
  from assms pdf_suffix obtain pdf where pdf: "files w (file_path self) = Some pdf"
    by (cases "files w (file_path self)") (simp_all add: ingest_file_cases)
  let ?loaded = "concat (map (page_docs ocr ''ita'' (file_path self) pdf) [0..<length pdf])"
  let ?documents = "annotate_from (name (file_path self)) 0
                      (split (chunk_size self) (chunk_overlap self) ?loaded)"
  from assms pdf_suffix pdf have live: "client w \<noteq> Moved"
    by (auto simp: ingest_file_cases Let_def split: if_splits)
  have "fst (load ocr ''ita'' (file_path self) w) = Inr ?loaded"
    by (simp add: load_eq [OF pdf])
  moreover have "entries (snd (ingest_file ocr split self w)) =
      entries w @ zip (map (\<lambda>i. uuid_count w + i) [0..<length ?documents]) ?documents"
    by (simp add: ingest_file_cases pdf_suffix pdf live Let_def entries_def)
  then have "map snd (new_entries w (snd (ingest_file ocr split self w))) = ?documents"
    by (simp add: new_entries_def)
  ultimately show ?thesis
    by blast
qed

lemma page_content_annotate_from:
  "map page_content (annotate_from nm k ds) =
     map (\<lambda>d. case metadata d ''page'' of
                 None \<Rightarrow> page_content d
               | Some p \<Rightarrow> ''[PAGINA '' @ format_value p @ '']'' @ [CHR 0x0A] @ page_content d)
       ds"
  by (induction ds arbitrary: k) (simp_all add: annotate_def Let_def)

lemma chunk_id_annotate_from:
  "map (\<lambda>d. metadata d ''chunk_id'') (annotate_from nm k ds) =
     map (\<lambda>i. Some (MInt (int i))) [k..<k + length ds]"
proof (induction ds arbitrary: k)
  case Nil
  then show ?case by simp
next
  case (Cons d ds)
  have "[k..<k + length (d # ds)] = k # [Suc k..<k + length (d # ds)]"
    by (rule upt_conv_Cons) simp
  moreover have "k + length (d # ds) = Suc k + length ds"
    by simp
  ultimately have "[k..<k + length (d # ds)] = k # [Suc k..<Suc k + length ds]"
    by (simp only:)
  moreover have "metadata (annotate nm k d) ''chunk_id'' = Some (MInt (int k))"
    by (simp add: annotate_def Let_def)
  ultimately show ?case
    by (simp add: Cons.IH)
qed

lemma page_annotate: "metadata (annotate nm k d) ''page'' = metadata d ''page''"
  by (simp add: annotate_def Let_def setdefault_def split: option.splits)

lemma length_windows: "t \<in> set (windows n s) \<Longrightarrow> length t \<le> n \<and> 0 < n"
  by (cases "n = 0") (auto simp: windows_def)

lemma window_splitter_bound:
  "list_all (\<lambda>d. int (length (page_content d)) \<le> csize) (window_splitter csize coverlap docs)"
proof -
  have "int (length (page_content d)) \<le> csize"
    if "d \<in> set (window_splitter csize coverlap docs)" for d
  proof -
    from that obtain t d0 where "t \<in> set (windows (nat csize) (page_content d0))"
      and "d = d0\<lparr>page_content := t\<rparr>"
      by (auto simp: window_splitter_def)
    then have "length t \<le> nat csize" and "0 < nat csize"
      using length_windows [of t "nat csize" "page_content d0"] by simp_all
    then have "int (length t) \<le> csize"
      by linarith
    with \<open>d = d0\<lparr>page_content := t\<rparr>\<close> show ?thesis
      by simp
  qed
  then show ?thesis
    by (simp add: list_all_iff)
qed

lemma annotate_from_member:
  "x \<in> set (annotate_from nm k ds) \<Longrightarrow> \<exists>d \<in> set ds. \<exists>i. x = annotate nm i d"
  by (induction ds arbitrary: k) auto

lemma length_annotate:
  "length (page_content (annotate nm i d)) =
     length (page_content d) +
     (case metadata d ''page'' of None \<Rightarrow> 0 | Some p \<Rightarrow> 10 + length (format_value p))"
  by (simp add: annotate_def Let_def split: option.splits)

lemma sample_run_succeeds:
  "fst (ingest_file read_image window_splitter sample_ingestor sample_ready) = Inr ()"
  by code_simp

text \<open>
  Claim C1, as the code has it. After a successful \<open>ingest_file\<close> the texts of the entries
  it added are the texts of the splitter's chunks, in order, each chunk whose metadata has
  a page with the marker \<open>[PAGINA n]\<close> and a newline in front (\<open>n\<close> the page as an
  f-string prints it), each chunk without a page unchanged. The marker is the Italian
  word, not \<open>[PAGE n]\<close>.
\<close>

theorem ingest_file_page_marker:
  assumes "fst (ingest_file ocr split self w) = Inr ()"
  shows "\<exists>loaded.
           fst (load ocr ''ita'' (file_path self) w) = Inr loaded \<and>
           map (\<lambda>e. page_content (snd e)) (new_entries w (snd (ingest_file ocr split self w))) =
             map (\<lambda>d. case metadata d ''page'' of
                         None \<Rightarrow> page_content d
                       | Some p \<Rightarrow>
                           ''[PAGINA '' @ format_value p @ '']'' @ [CHR 0x0A] @ page_content d)
               (split (chunk_size self) (chunk_overlap self) loaded)"
proof -
  from ingest_file_new_entries [OF assms] obtain loaded where
    loaded: "fst (load ocr ''ita'' (file_path self) w) = Inr loaded" and
    added: "map snd (new_entries w (snd (ingest_file ocr split self w))) =
              annotate_from (name (file_path self)) 0
                (split (chunk_size self) (chunk_overlap self) loaded)"
    by blast
  have "map (\<lambda>e. page_content (snd e)) (new_entries w (snd (ingest_file ocr split self w))) =
        map page_content (map snd (new_entries w (snd (ingest_file ocr split self w))))"
    by (simp add: comp_def)
  also have "\<dots> =
        map (\<lambda>d. case metadata d ''page'' of
                    None \<Rightarrow> page_content d
                  | Some p \<Rightarrow>
                      ''[PAGINA '' @ format_value p @ '']'' @ [CHR 0x0A] @ page_content d)
          (split (chunk_size self) (chunk_overlap self) loaded)"
    by (simp only: added page_content_annotate_from)
  finally show ?thesis
    using loaded by blast
qed

theorem ingest_file_page_marker_witness:
  "fst (ingest_file read_image window_splitter sample_ingestor sample_ready) = Inr () \<and>
   (\<exists>loaded.
      fst (load read_image ''ita'' (file_path sample_ingestor) sample_ready) = Inr loaded \<and>
      map (\<lambda>d. (page_content d, metadata d ''page''))
        (window_splitter (chunk_size sample_ingestor) (chunk_overlap sample_ingestor) loaded) =
        [(''hello'', Some (MInt 1)), (''scan'', Some (MInt 2))] \<and>
      map (\<lambda>e. page_content (snd e)) (new_entries sample_ready sample_first) =
        [''[PAGINA 1]'' @ [CHR 0x0A] @ ''hello'', ''[PAGINA 2]'' @ [CHR 0x0A] @ ''scan''])"
proof -
  from ingest_file_page_marker [OF sample_run_succeeds] obtain loaded where
    loaded: "fst (load read_image ''ita'' (file_path sample_ingestor) sample_ready) =
               Inr loaded" and
    texts: "map (\<lambda>e. page_content (snd e)) (new_entries sample_ready sample_first) =
              map (\<lambda>d. case metadata d ''page'' of
                          None \<Rightarrow> page_content d
                        | Some p \<Rightarrow>
                            ''[PAGINA '' @ format_value p @ '']'' @ [CHR 0x0A] @
                            page_content d)
                (window_splitter (chunk_size sample_ingestor) (chunk_overlap sample_ingestor)
                   loaded)"
    unfolding sample_first_def by blast
  have "Inr loaded =
        Inr (projr (fst (load read_image ''ita'' (file_path sample_ingestor) sample_ready)))"
    by (simp add: loaded)
  then have which: "loaded =
        projr (fst (load read_image ''ita'' (file_path sample_ingestor) sample_ready))"
    by simp
  have chunks: "map (\<lambda>d. (page_content d, metadata d ''page''))
      (window_splitter (chunk_size sample_ingestor) (chunk_overlap sample_ingestor)
         (projr (fst (load read_image ''ita'' (file_path sample_ingestor) sample_ready)))) =
      [(''hello'', Some (MInt 1)), (''scan'', Some (MInt 2))]"
    by code_simp
  have tagged: "map (\<lambda>d. case metadata d ''page'' of
                          None \<Rightarrow> page_content d
                        | Some p \<Rightarrow>
                            ''[PAGINA '' @ format_value p @ '']'' @ [CHR 0x0A] @
                            page_content d)
      (window_splitter (chunk_size sample_ingestor) (chunk_overlap sample_ingestor)
         (projr (fst (load read_image ''ita'' (file_path sample_ingestor) sample_ready)))) =
      [''[PAGINA 1]'' @ [CHR 0x0A] @ ''hello'', ''[PAGINA 2]'' @ [CHR 0x0A] @ ''scan'']"
    by code_simp
  show ?thesis
    using sample_run_succeeds loaded chunks tagged texts unfolding which
    by (intro conjI exI [of _ "projr (fst (load read_image ''ita'' (file_path sample_ingestor)
          sample_ready))"]) (simp_all only:)
qed

text \<open>
  The sample run against claim C1 as the specification words it: the chunks \<open>hello\<close> of
  page 1 and \<open>scan\<close> of page 2 are not stored with a marker \<open>[PAGE n]\<close>.
\<close>

theorem page_marker_counterexample:
  "map (\<lambda>d. (page_content d, metadata d ''page''))
     (window_splitter (chunk_size sample_ingestor) (chunk_overlap sample_ingestor)
        (projr (fst (load read_image ''ita'' (file_path sample_ingestor) sample_ready)))) =
     [(''hello'', Some (MInt 1)), (''scan'', Some (MInt 2))] \<and>
   map (\<lambda>e. page_content (snd e)) (new_entries sample_ready sample_first) \<noteq>
     [''[PAGE 1]'' @ [CHR 0x0A] @ ''hello'', ''[PAGE 2]'' @ [CHR 0x0A] @ ''scan'']"
  by code_simp

text \<open>
  Claim C2, as the code has it. When the splitter returns no chunk longer than
  \<open>chunk_size\<close>, an entry that \<open>ingest_file\<close> adds is at most \<open>chunk_size\<close> characters
  long if it has no page, and at most \<open>chunk_size\<close> plus the length of its marker
  (10 characters and the digits of the page) if it has one: the marker is put in front
  after the split.
\<close>

theorem ingest_file_chunk_length:
  assumes "fst (ingest_file ocr split self w) = Inr ()"
    and "\<forall>docs. list_all (\<lambda>d. int (length (page_content d)) \<le> chunk_size self)
                  (split (chunk_size self) (chunk_overlap self) docs)"
  shows "list_all
           (\<lambda>e. int (length (page_content (snd e))) \<le>
                 chunk_size self +
                 (case metadata (snd e) ''page'' of
                    None \<Rightarrow> 0
                  | Some p \<Rightarrow> 10 + int (length (format_value p))))
           (new_entries w (snd (ingest_file ocr split self w)))"
proof -
  let ?new = "new_entries w (snd (ingest_file ocr split self w))"
  from ingest_file_new_entries [OF assms(1)] obtain loaded where
    added: "map snd ?new =
              annotate_from (name (file_path self)) 0
                (split (chunk_size self) (chunk_overlap self) loaded)"
    by blast
  have "int (length (page_content (snd e))) \<le>
          chunk_size self +
          (case metadata (snd e) ''page'' of
             None \<Rightarrow> 0
           | Some p \<Rightarrow> 10 + int (length (format_value p)))"
    if "e \<in> set ?new" for e
  proof -
    from that have "snd e \<in> set (map snd ?new)"
      by simp
    then obtain d i where
      d: "d \<in> set (split (chunk_size self) (chunk_overlap self) loaded)" and
      e: "snd e = annotate (name (file_path self)) i d"
      unfolding added using annotate_from_member by blast
    from assms(2) d have "int (length (page_content d)) \<le> chunk_size self"
      by (auto simp: list_all_iff)
    then show ?thesis
      by (simp add: e length_annotate page_annotate split: option.splits)
  qed
  then show ?thesis
    by (simp add: list_all_iff)
qed

theorem ingest_file_chunk_length_witness:
  "fst (ingest_file read_image window_splitter small_ingestor small_ready) = Inr () \<and>
   (\<forall>docs. list_all (\<lambda>d. int (length (page_content d)) \<le> chunk_size small_ingestor)
             (window_splitter (chunk_size small_ingestor) (chunk_overlap small_ingestor) docs)) \<and>
   list_all
     (\<lambda>e. int (length (page_content (snd e))) \<le>
           chunk_size small_ingestor +
           (case metadata (snd e) ''page'' of
              None \<Rightarrow> 0
            | Some p \<Rightarrow> 10 + int (length (format_value p))))
     (new_entries small_ready
        (snd (ingest_file read_image window_splitter small_ingestor small_ready)))"
proof -
  have ok: "fst (ingest_file read_image window_splitter small_ingestor small_ready) = Inr ()"
    by code_simp
  have bound: "\<forall>docs. list_all (\<lambda>d. int (length (page_content d)) \<le> chunk_size small_ingestor)
      (window_splitter (chunk_size small_ingestor) (chunk_overlap small_ingestor) docs)"
    by (simp only: window_splitter_bound simp_thms)
  from ingest_file_chunk_length [OF ok bound] ok bound show ?thesis
    by (intro conjI)
qed

text \<open>
  The run with \<open>chunk_size = 5\<close> and \<open>chunk_overlap = 0\<close> against claim C2 as stated: the
  stored texts are 16 and 15 characters long.
\<close>

theorem chunk_length_counterexample:
  "chunk_overlap small_ingestor < chunk_size small_ingestor \<and>
   fst (ingest_file read_image window_splitter small_ingestor small_ready) = Inr () \<and>
   list_all (\<lambda>d. int (length (page_content d)) \<le> chunk_size small_ingestor)
     (window_splitter (chunk_size small_ingestor) (chunk_overlap small_ingestor)
        (projr (fst (load read_image ''ita'' (file_path small_ingestor) small_ready)))) \<and>
   map (\<lambda>e. int (length (page_content (snd e))))
     (new_entries small_ready
        (snd (ingest_file read_image window_splitter small_ingestor small_ready))) = [16, 15] \<and>
   \<not> list_all (\<lambda>e. int (length (page_content (snd e))) \<le> chunk_size small_ingestor)
       (new_entries small_ready
          (snd (ingest_file read_image window_splitter small_ingestor small_ready)))"
  by code_simp

text \<open>
  Claim C5. The \<open>chunk_id\<close> values of the entries a successful \<open>ingest_file\<close> adds are
  0, 1, 2, ... in the order of the entries.
\<close>

theorem ingest_file_chunk_ids:
  assumes "fst (ingest_file ocr split self w) = Inr ()"
  shows "map (\<lambda>e. metadata (snd e) ''chunk_id'')
           (new_entries w (snd (ingest_file ocr split self w))) =
         map (\<lambda>i. Some (MInt (int i)))
           [0..<length (new_entries w (snd (ingest_file ocr split self w)))]"
proof -
  let ?new = "new_entries w (snd (ingest_file ocr split self w))"
  from ingest_file_new_entries [OF assms] obtain loaded where
    added: "map snd ?new =
              annotate_from (name (file_path self)) 0
                (split (chunk_size self) (chunk_overlap self) loaded)"
    by blast
  let ?chunks = "split (chunk_size self) (chunk_overlap self) loaded"
  have "length (map snd ?new) = length ?chunks"
    by (simp only: added length_annotate_from)
  then have len: "length ?chunks = length ?new"
    by simp
  have "map (\<lambda>e. metadata (snd e) ''chunk_id'') ?new =
        map (\<lambda>d. metadata d ''chunk_id'') (map snd ?new)"
    by (simp add: comp_def)
  also have "\<dots> = map (\<lambda>i. Some (MInt (int i))) [0..<0 + length ?chunks]"
    by (simp only: added chunk_id_annotate_from)
  finally show ?thesis
    by (simp add: len)
qed

theorem ingest_file_chunk_ids_witness:
  "fst (ingest_file read_image window_splitter sample_ingestor sample_ready) = Inr () \<and>
   map (\<lambda>e. metadata (snd e) ''chunk_id'') (new_entries sample_ready sample_first) =
     [Some (MInt 0), Some (MInt 1)]"
proof -
  have n: "length (new_entries sample_ready sample_first) = 2"
    by code_simp
  have "map (\<lambda>i. Some (MInt (int i))) [0..<2] = [Some (MInt 0), Some (MInt 1)]"
    by code_simp
  with ingest_file_chunk_ids [OF sample_run_succeeds] n sample_run_succeeds show ?thesis
    by (simp only: sample_first_def [symmetric] simp_thms)
qed

text \<open>
  Claim C6. When the suffix of the file path is not \<open>.pdf\<close>, \<open>ingest_file\<close> fails with
  the \<open>ValueError\<close> of the source and the world is as it was: nothing was loaded, no OCR
  collaborator was called, no id was drawn and nothing was added to the index.
\<close>

theorem ingest_file_rejects_other_suffix:
  assumes "suffix (file_path self) \<noteq> ''.pdf''"
  shows "ingest_file ocr split self w = (Inl (ValueError ''The file must be a pdf.''), w)"
  using assms by (simp add: ingest_file_def)

theorem ingest_file_rejects_other_suffix_witness:
  "suffix (file_path (sample_ingestor\<lparr>file_path := [''/'', ''app'', ''data'', ''notes.txt'']\<rparr>))
     \<noteq> ''.pdf'' \<and>
   ingest_file read_image window_splitter
     (sample_ingestor\<lparr>file_path := [''/'', ''app'', ''data'', ''notes.txt'']\<rparr>) sample_ready =
     (Inl (ValueError ''The file must be a pdf.''), sample_ready)"
proof -
  have other: "suffix (file_path
      (sample_ingestor\<lparr>file_path := [''/'', ''app'', ''data'', ''notes.txt'']\<rparr>)) \<noteq> ''.pdf''"
    by code_simp
  from ingest_file_rejects_other_suffix [OF other] other show ?thesis
    by (intro conjI)
qed

text \<open>
  Claim C10. \<open>ingest_file\<close> raises its \<open>ValueError\<close> exactly when the suffix of the path
  differs from the string \<open>.pdf\<close>: the comparison is exact, so a stored PDF named
  \<open>A.PDF\<close> is refused.
\<close>

theorem ingest_file_suffix_exact:
  "fst (ingest_file ocr split self w) = Inl (ValueError ''The file must be a pdf.'') \<longleftrightarrow>
   suffix (file_path self) \<noteq> ''.pdf''"
  by (auto simp: ingest_file_cases Let_def split: option.splits)

theorem ingest_file_suffix_exact_witness:
  "files (sample_world\<lparr>files := [[''/'', ''app'', ''data'', ''A.PDF''] \<mapsto> sample_pdf]\<rparr>)
     [''/'', ''app'', ''data'', ''A.PDF''] = Some sample_pdf \<and>
   suffix [''/'', ''app'', ''data'', ''A.PDF''] = ''.PDF'' \<and>
   fst (ingest_file read_image window_splitter
          (sample_ingestor\<lparr>file_path := [''/'', ''app'', ''data'', ''A.PDF'']\<rparr>)
          (sample_world\<lparr>files := [[''/'', ''app'', ''data'', ''A.PDF''] \<mapsto> sample_pdf]\<rparr>)) =
     Inl (ValueError ''The file must be a pdf.'')"
proof -
  have upper: "suffix [''/'', ''app'', ''data'', ''A.PDF''] = ''.PDF''"
    by code_simp
  then have "suffix (file_path
      (sample_ingestor\<lparr>file_path := [''/'', ''app'', ''data'', ''A.PDF'']\<rparr>)) \<noteq> ''.pdf''"
    by simp
  with ingest_file_suffix_exact
    [of read_image window_splitter
      "sample_ingestor\<lparr>file_path := [''/'', ''app'', ''data'', ''A.PDF'']\<rparr>"
      "sample_world\<lparr>files := [[''/'', ''app'', ''data'', ''A.PDF''] \<mapsto> sample_pdf]\<rparr>"]
  have "fst (ingest_file read_image window_splitter
          (sample_ingestor\<lparr>file_path := [''/'', ''app'', ''data'', ''A.PDF'']\<rparr>)
          (sample_world\<lparr>files := [[''/'', ''app'', ''data'', ''A.PDF''] \<mapsto> sample_pdf]\<rparr>)) =
     Inl (ValueError ''The file must be a pdf.'')"
    by (simp only: simp_thms)
  with upper show ?thesis
    by simp
qed

subsection \<open>The index across runs\<close>

lemma Ingestor_init_world:
  "client w = Unopened \<Longrightarrow>
   chroma_db (snd (Ingestor_init base file_name csize coverlap w)) = Some [] \<and>
   client (snd (Ingestor_init base file_name csize coverlap w)) = Open"
  by (simp add: Ingestor_init_def instantiate_vector_store_def persist_directory_exists_def
        Chroma_def rmtree_def Let_def)

text \<open>
  A second \<open>Ingestor\<close> constructed in a process whose client is already open does not
  reset the index: the cached client keeps serving its entries, and since the directory
  was removed under it, \<open>ingest_file\<close> on a moved client cannot succeed.
\<close>

lemma Ingestor_init_reopened:
  "client w = Open \<Longrightarrow>
   entries (snd (Ingestor_init base file_name csize coverlap w)) = entries w \<and>
   client (snd (Ingestor_init base file_name csize coverlap w)) =
     (if chroma_db w = None then Open else Moved)"
  by (simp add: Ingestor_init_def instantiate_vector_store_def persist_directory_exists_def
        Chroma_def rmtree_def entries_def Let_def)

lemma ingest_file_moved:
  "client w = Moved \<Longrightarrow> fst (ingest_file ocr split self w) \<noteq> Inr ()"
  by (simp add: ingest_file_cases Let_def split: option.splits)

lemma Ingestor_init_self:
  "chunk_size (fst (Ingestor_init base file_name csize coverlap w)) = csize \<and>
   chunk_overlap (fst (Ingestor_init base file_name csize coverlap w)) = coverlap \<and>
   file_path (fst (Ingestor_init base file_name csize coverlap w)) =
     truediv (base @ [''data'']) file_name"
  by (simp add: Ingestor_init_def Let_def)

lemma load_chroma_db: "chroma_db (snd (load ocr lang p w)) = chroma_db w"
  by (simp add: load_def Let_def split: option.splits)

lemma ingest_file_keeps_entries:
  "take (length (entries x)) (entries (snd (ingest_file ocr split self x))) = entries x"
  by (simp add: ingest_file_cases load_chroma_db Let_def entries_def split: option.splits)

text \<open>
  Claim C3, as the code has it. In a process that has not opened the store yet, the
  index is emptied when an \<open>Ingestor\<close> is constructed (\<open>Ingestor_init\<close> calls
  \<open>instantiate_vector_store\<close>), whatever an earlier run of the program left there; after
  one successful \<open>ingest_file\<close> on that ingestor the index holds exactly the chunks of that
  run. \<open>ingest_file\<close> itself never discards anything: the entries present before a call
  are still there after it, in front of what the call added.
\<close>

theorem fresh_ingestor_index:
  assumes "client w = Unopened"
    and "Ingestor_init base file_name csize coverlap w = (self, w0)"
    and "fst (ingest_file ocr split self w0) = Inr ()"
  shows "chroma_db w0 = Some [] \<and>
         (\<exists>loaded.
            fst (load ocr ''ita'' (file_path self) w0) = Inr loaded \<and>
            map snd (entries (snd (ingest_file ocr split self w0))) =
              annotate_from (name (file_path self)) 0 (split csize coverlap loaded)) \<and>
         (\<forall>x. take (length (entries x)) (entries (snd (ingest_file ocr split self x))) =
                entries x)"
proof -
  from assms(2) have w0: "w0 = snd (Ingestor_init base file_name csize coverlap w)"
    and self: "self = fst (Ingestor_init base file_name csize coverlap w)"
    by simp_all
  have empty: "chroma_db w0 = Some []"
    unfolding w0 using assms(1) by (simp add: Ingestor_init_world)
  then have none: "entries w0 = []"
    by (simp add: entries_def)
  have params: "chunk_size self = csize" "chunk_overlap self = coverlap"
    unfolding self by (simp_all add: Ingestor_init_self)
  from ingest_file_new_entries [OF assms(3)] obtain loaded where
    loaded: "fst (load ocr ''ita'' (file_path self) w0) = Inr loaded" and
    added: "map snd (new_entries w0 (snd (ingest_file ocr split self w0))) =
              annotate_from (name (file_path self)) 0
                (split (chunk_size self) (chunk_overlap self) loaded)"
    by blast
  from added have "map snd (entries (snd (ingest_file ocr split self w0))) =
      annotate_from (name (file_path self)) 0 (split csize coverlap loaded)"
    by (simp add: new_entries_def none params)
  with loaded have run: "\<exists>loaded.
      fst (load ocr ''ita'' (file_path self) w0) = Inr loaded \<and>
      map snd (entries (snd (ingest_file ocr split self w0))) =
        annotate_from (name (file_path self)) 0 (split csize coverlap loaded)"
    by blast
  show ?thesis
    using empty run ingest_file_keeps_entries by blast
qed

theorem fresh_ingestor_index_witness:
  "client sample_world = Unopened \<and>
   Ingestor_init [''/'', ''app''] ''a.pdf'' 800 150 sample_world =
     (sample_ingestor, sample_ready) \<and>
   fst (ingest_file read_image window_splitter sample_ingestor sample_ready) = Inr () \<and>
   map (\<lambda>e. page_content (snd e)) (entries sample_world) = [''old''] \<and>
   chroma_db sample_ready = Some [] \<and>
   map (\<lambda>e. page_content (snd e)) (entries sample_first) =
     [''[PAGINA 1]'' @ [CHR 0x0A] @ ''hello'', ''[PAGINA 2]'' @ [CHR 0x0A] @ ''scan'']"
proof -
  have init: "Ingestor_init [''/'', ''app''] ''a.pdf'' 800 150 sample_world =
                (sample_ingestor, sample_ready)"
    by (simp add: sample_ingestor_def sample_ready_def)
  have unopened: "client sample_world = Unopened"
    by (simp add: sample_world_def)
  from fresh_ingestor_index [OF unopened init sample_run_succeeds]
  have reset: "chroma_db sample_ready = Some []"
    by blast
  have old: "map (\<lambda>e. page_content (snd e)) (entries sample_world) = [''old'']"
    by code_simp
  have texts: "map (\<lambda>e. page_content (snd e)) (entries sample_first) =
     [''[PAGINA 1]'' @ [CHR 0x0A] @ ''hello'', ''[PAGINA 2]'' @ [CHR 0x0A] @ ''scan'']"
    by code_simp
  show ?thesis
    by (intro conjI unopened init sample_run_succeeds old reset texts)
qed

text \<open>
  Two successive calls of \<open>ingest_file\<close> on one ingestor against claim C3 as stated: the
  second run adds two chunks and the index then holds four, those of both runs.
\<close>

theorem second_run_accumulates_counterexample:
  "fst (ingest_file read_image window_splitter sample_ingestor sample_first) = Inr () \<and>
   map (\<lambda>e. page_content (snd e)) (new_entries sample_first sample_second) =
     [''[PAGINA 1]'' @ [CHR 0x0A] @ ''hello'', ''[PAGINA 2]'' @ [CHR 0x0A] @ ''scan''] \<and>
   map (\<lambda>e. page_content (snd e)) (entries sample_second) =
     [''[PAGINA 1]'' @ [CHR 0x0A] @ ''hello'', ''[PAGINA 2]'' @ [CHR 0x0A] @ ''scan'',
      ''[PAGINA 1]'' @ [CHR 0x0A] @ ''hello'', ''[PAGINA 2]'' @ [CHR 0x0A] @ ''scan''] \<and>
   map fst (entries sample_second) = [0, 1, 2, 3] \<and>
   entries sample_second \<noteq> new_entries sample_first sample_second"
proof -
  have "length (entries sample_second) \<noteq> length (new_entries sample_first sample_second)"
    by code_simp
  then have "entries sample_second \<noteq> new_entries sample_first sample_second"
    by auto
  moreover have
    "fst (ingest_file read_image window_splitter sample_ingestor sample_first) = Inr () \<and>
     map (\<lambda>e. page_content (snd e)) (new_entries sample_first sample_second) =
       [''[PAGINA 1]'' @ [CHR 0x0A] @ ''hello'', ''[PAGINA 2]'' @ [CHR 0x0A] @ ''scan''] \<and>
     map (\<lambda>e. page_content (snd e)) (entries sample_second) =
       [''[PAGINA 1]'' @ [CHR 0x0A] @ ''hello'', ''[PAGINA 2]'' @ [CHR 0x0A] @ ''scan'',
        ''[PAGINA 1]'' @ [CHR 0x0A] @ ''hello'', ''[PAGINA 2]'' @ [CHR 0x0A] @ ''scan''] \<and>
     map fst (entries sample_second) = [0, 1, 2, 3]"
    by code_simp
  ultimately show ?thesis
    by (simp only: simp_thms)
qed

subsection \<open>Questions\<close>

lemma ask_world: "fst (snd (ask retrieve render chat_model self q st)) = fst st"
  by (simp add: ask_def Let_def split: prod.splits)

lemma ask_received:
  "received (snd (snd (ask retrieve render chat_model self q st))) =
     received (snd st) @
     [render (prompt_message self) q (retrieve (chroma_db (fst st)) (retriever_k self) q)]"
  by (simp add: ask_def Let_def split: prod.splits)

lemma ask_answer:
  "fst (ask retrieve render chat_model self q st) =
     fst (chat_model (hidden (snd st))
            (render (prompt_message self) q
               (retrieve (chroma_db (fst st)) (retriever_k self) q)))"
  by (simp add: ask_def Let_def split: prod.splits)

lemma ask_all_world: "fst (ask_all retrieve render chat_model self qs st) = fst st"
  by (induction qs arbitrary: st) (simp_all add: ask_world)

text \<open>
  Claim C8. Whatever questions \<open>qs\<close> were asked before, they leave the world (and with it
  the index) as it was, and the prompt that \<open>ask\<close> hands to the chat model for a question
  \<open>q\<close> is the template rendered with \<open>q\<close> and the chunks retrieved for \<open>q\<close> from that
  index: it does not depend on the earlier questions, on their answers or on the hidden
  state of the chat model. Two histories \<open>qs\<close> and \<open>qs'\<close> give the same prompt. The
  answer \<open>ask\<close> returns is the chat model's reply to that prompt.
\<close>

theorem ask_independent_of_history:
  "fst (ask_all retrieve render chat_model self qs st) = fst st \<and>
   received (snd (snd (ask retrieve render chat_model self q
                         (ask_all retrieve render chat_model self qs st)))) =
     received (snd (ask_all retrieve render chat_model self qs st)) @
     [render (prompt_message self) q (retrieve (chroma_db (fst st)) (retriever_k self) q)] \<and>
   last (received (snd (snd (ask retrieve render chat_model self q
                               (ask_all retrieve render chat_model self qs st))))) =
     last (received (snd (snd (ask retrieve render chat_model self q
                                 (ask_all retrieve render chat_model self qs' st))))) \<and>
   fst (ask retrieve render chat_model self q
          (ask_all retrieve render chat_model self qs st)) =
     fst (chat_model (hidden (snd (ask_all retrieve render chat_model self qs st)))
            (render (prompt_message self) q
               (retrieve (chroma_db (fst st)) (retriever_k self) q)))"
  by (simp add: ask_received ask_answer ask_all_world)

end
